theory Spec2Isabelle
  imports Main "HOL-Library.Word"
begin

section \<open>Data model\<close>

text \<open>
  The property collector of \<^verbatim>\<open>pkg/vsphere/simulator/property_collector.go\<close> walks
  registry objects by reflection.  The embedding keeps the shape of the Go code: every
  function of the file is one definition of the same name, a panic of the Go runtime is the
  error value \<open>Panic\<close>, and the receiver \<^verbatim>\<open>rr\<close> is passed and returned
  explicitly.
\<close>

record ManagedObjectReference =
  Type :: string
  Value :: string

text \<open>
  A \<^verbatim>\<open>reflect.Value\<close> together with the part of its \<^verbatim>\<open>reflect.Type\<close> that
  the collector reads.  A struct carries its type name, its package path and its fields in
  declaration order; a field is its name, its \<^verbatim>\<open>Anonymous\<close> flag and its value.
  A pointer carries the name of its element type (a nil pointer has no pointee), a slice the
  name of its element type (\<^verbatim>\<open>Type.Elem().Name()\<close>).  Struct fields are the exported
  fields of the vim25 records, and an embedded field holds its record by value, as every
  record of the \<^verbatim>\<open>mo\<close> and \<^verbatim>\<open>types\<close> packages does.
\<close>

datatype gval =
    GStruct string string "(string \<times> bool \<times> gval) list"
  | GPtr string "gval option"
  | GString string
  | GSlice string "gval list"
  | GInt32 "32 word"
  | GBool bool

type_synonym StructField = "string \<times> bool \<times> gval"

datatype reflect_Kind = Struct | Ptr | String | Slice | Int32 | Bool

fun Kind :: "gval \<Rightarrow> reflect_Kind" where
  "Kind (GStruct n p fs) = Struct"
| "Kind (GPtr n v) = Ptr"
| "Kind (GString s) = String"
| "Kind (GSlice n vs) = Slice"
| "Kind (GInt32 i) = Int32"
| "Kind (GBool b) = Bool"

datatype MethodFault =
    InvalidProperty string
  | ManagedObjectNotFound ManagedObjectReference

datatype error =
    errMissingField
  | errEmptyField
  | Fault MethodFault
  | Panic

text \<open>\<^verbatim>\<open>types.ManagedObjectReference\<close> as a reflected struct value, and back.\<close>

definition types_pkg :: string where
  "types_pkg = ''github.com/vmware/govmomi/vim25/types''"

definition mo_pkg :: string where
  "mo_pkg = ''github.com/vmware/govmomi/vim25/mo''"

definition MOR :: "ManagedObjectReference \<Rightarrow> gval" where
  "MOR r = GStruct ''ManagedObjectReference'' types_pkg
     [(''Type'', False, GString (Type r)), (''Value'', False, GString (Value r))]"

fun as_MOR :: "gval \<Rightarrow> ManagedObjectReference option" where
  "as_MOR (GStruct n p [(f1, a1, GString t), (f2, a2, GString v)]) =
     (if n = ''ManagedObjectReference'' \<and> p = types_pkg \<and> f1 = ''Type'' \<and> f2 = ''Value''
         \<and> \<not> a1 \<and> \<not> a2
      then Some \<lparr>Type = t, Value = v\<rparr> else None)"
| "as_MOR v = None"

section \<open>Request and result records (vim25 types)\<close>

datatype BaseSelectionSpec =
    SelectionSpec string
  | TraversalSpec (Path: string) (SelectSet_t: "BaseSelectionSpec list option")

record ObjectSpec =
  Obj :: ManagedObjectReference
  Skip :: "bool option"
  SelectSet :: "BaseSelectionSpec list option"

record PropertySpec =
  Type_p :: string
  All_p :: "bool option"
  PathSet :: "string list"

record PropertyFilterSpec =
  PropSet :: "PropertySpec list"
  ObjectSet :: "ObjectSpec list"
  ReportMissingObjectsInResults :: "bool option"

record RetrievePropertiesEx =
  This :: ManagedObjectReference
  SpecSet :: "PropertyFilterSpec list"

record RetrieveProperties =
  This_l :: ManagedObjectReference
  SpecSet_l :: "PropertyFilterSpec list"

record DynamicProperty =
  Name :: string
  Val :: "gval option"

record MissingProperty =
  Path_m :: string
  Fault_m :: MethodFault

record ObjectContent =
  Obj_c :: ManagedObjectReference
  PropSet_c :: "DynamicProperty list"
  MissingSet :: "MissingProperty list"

record RetrieveResult =
  Token :: string
  Objects :: "ObjectContent list"

section \<open>Strings\<close>

text \<open>
  \<^verbatim>\<open>strings.ToUpper\<close> and \<^verbatim>\<open>strings.ToLower\<close> on the one-byte string
  \<^verbatim>\<open>s[:1]\<close>: an ASCII letter changes case, another ASCII byte stays, and a byte
  that is no valid UTF-8 on its own becomes the replacement rune U+FFFD.
\<close>

definition RuneError :: string where
  "RuneError = [char_of (239::nat), char_of (191::nat), char_of (189::nat)]"

definition ToUpper1 :: "char \<Rightarrow> string" where
  "ToUpper1 c = (let n = (of_char c :: nat) in
     if 97 \<le> n \<and> n \<le> 122 then [char_of (n - 32)]
     else if 128 \<le> n then RuneError else [c])"

definition ToLower1 :: "char \<Rightarrow> string" where
  "ToLower1 c = (let n = (of_char c :: nat) in
     if 65 \<le> n \<and> n \<le> 90 then [char_of (n + 32)]
     else if 128 \<le> n then RuneError else [c])"

text \<open>\<^verbatim>\<open>s[:1]\<close> panics on the empty string.\<close>

fun lcFirst :: "string \<Rightarrow> error + string" where
  "lcFirst [] = Inl Panic"
| "lcFirst (c # s) = Inr (ToLower1 c @ s)"

fun ucFirst :: "string \<Rightarrow> error + string" where
  "ucFirst [] = Inl Panic"
| "ucFirst (c # s) = Inr (ToUpper1 c @ s)"

text \<open>\<^verbatim>\<open>strings.Split(p, ".")\<close>: always at least one piece.\<close>

fun Split :: "string \<Rightarrow> char \<Rightarrow> string list" where
  "Split [] sep = [[]]"
| "Split (c # cs) sep =
     (if c = sep then [] # Split cs sep
      else (case Split cs sep of [] \<Rightarrow> [[c]] | w # ws \<Rightarrow> (c # w) # ws))"

text \<open>\<^verbatim>\<open>path.Base\<close>: the last element of a slash-separated path.\<close>

definition strip_slashes :: "string \<Rightarrow> string" where
  "strip_slashes s = rev (dropWhile (\<lambda>c. c = CHR ''/'') (rev s))"

definition path_Base :: "string \<Rightarrow> string" where
  "path_Base p =
     (if p = [] then ''.''
      else let s = strip_slashes p in
        if s = [] then ''/''
        else rev (takeWhile (\<lambda>c. c \<noteq> CHR ''/'') (rev s)))"

fun isTrue :: "bool option \<Rightarrow> bool" where
  "isTrue None = False"
| "isTrue (Some b) = b"

fun isFalse :: "bool option \<Rightarrow> bool" where
  "isFalse None = True"
| "isFalse (Some b) = (b = False)"

section \<open>Reflection\<close>

fun isEmpty :: "gval \<Rightarrow> bool" where
  "isEmpty (GPtr n v) = (v = None)"
| "isEmpty (GString s) = (length s = 0)"
| "isEmpty (GSlice n vs) = (length vs = 0)"
| "isEmpty v = False"

fun struct_fields :: "gval \<Rightarrow> StructField list" where
  "struct_fields (GStruct n p fs) = fs"
| "struct_fields v = []"

fun PkgPath :: "gval \<Rightarrow> string" where
  "PkgPath (GStruct n p fs) = p"
| "PkgPath v = []"

definition embedded :: "StructField list \<Rightarrow> gval list" where
  "embedded fs = map (\<lambda>f. snd (snd f)) (filter (\<lambda>f. fst (snd f) \<and> Kind (snd (snd f)) = Struct) fs)"

fun vsize :: "gval \<Rightarrow> nat" where
  "vsize (GStruct n p fs) = Suc (sum_list (map (\<lambda>f. vsize (snd (snd f))) fs))"
| "vsize v = 1"

lemma vsize_embedded: "sum_list (map vsize (embedded fs)) \<le> sum_list (map (\<lambda>f. vsize (snd (snd f))) fs)"
  by (induction fs) (auto simp: embedded_def)

lemma vsize_struct_fields: "sum_list (map vsize (embedded (struct_fields v))) < vsize v"
  using vsize_embedded by (cases v) (auto simp: embedded_def less_Suc_eq_le)

lemma vsize_level:
  "lvl \<noteq> [] \<Longrightarrow>
   sum_list (map vsize (embedded (concat (map struct_fields lvl)))) < sum_list (map vsize lvl)"
proof (induction lvl)
  case Nil
  then show ?case by simp
next
  case (Cons v lvl)
  have split: "embedded (concat (map struct_fields (v # lvl)))
      = embedded (struct_fields v) @ embedded (concat (map struct_fields lvl))"
    by (simp add: embedded_def)
  show ?case
  proof (cases "lvl = []")
    case True
    then show ?thesis using vsize_struct_fields [of v] by (simp add: embedded_def)
  next
    case False
    then show ?thesis
      using Cons.IH vsize_struct_fields [of v] unfolding split by simp
  qed
qed

text \<open>
  \<^verbatim>\<open>FieldByName\<close> of package reflect: breadth first through the embedded structs.
  The fields of the structs at one depth are examined together; one field of the name at
  that depth is the answer, two or more annihilate each other, and with none the search
  goes on one level deeper.
\<close>

function FieldByName_level :: "gval list \<Rightarrow> string \<Rightarrow> StructField option" where
  "FieldByName_level lvl x =
     (if lvl = [] then None
      else (case filter (\<lambda>f. fst f = x) (concat (map struct_fields lvl)) of
              [] \<Rightarrow> FieldByName_level (embedded (concat (map struct_fields lvl))) x
            | [f] \<Rightarrow> Some f
            | f # g # hs \<Rightarrow> None))"
  by pat_completeness auto
termination
  by (relation "measure (\<lambda>(lvl, x). sum_list (map vsize lvl))") (auto simp: vsize_level)

declare FieldByName_level.simps [simp del]

text \<open>\<^verbatim>\<open>FieldByName\<close> panics on a value that is no struct.\<close>

definition FieldByName :: "gval \<Rightarrow> string \<Rightarrow> error + StructField option" where
  "FieldByName rval x =
     (if Kind rval = Struct then Inr (FieldByName_level [rval] x) else Inl Panic)"

section \<open>Resolving one property path\<close>

text \<open>
  \<^verbatim>\<open>typeFunc\<close> is the type registry of package \<^verbatim>\<open>types\<close>; it is a parameter
  of the model.  \<open>typeFunc name\<close> is the zero value of the record type registered under
  \<open>name\<close>, or \<open>None\<close>.  The \<^verbatim>\<open>ArrayOf\<close> records are flat, so the field that
  \<^verbatim>\<open>Set\<close> assigns is one of the record's own fields.
\<close>

type_synonym typeFunc = "string \<Rightarrow> gval option"

fun Elem_Name :: "gval \<Rightarrow> string" where
  "Elem_Name (GSlice n vs) = n"
| "Elem_Name (GPtr n v) = n"
| "Elem_Name v = []"

fun Type_Name :: "gval \<Rightarrow> string" where
  "Type_Name (GStruct n p fs) = n"
| "Type_Name v = []"

text \<open>
  \<^verbatim>\<open>a.Elem().FieldByName(kind).Set(rval)\<close> on a fresh record \<open>z\<close>: panics when the
  record has no field of that name, or when the slice is not assignable to it.
\<close>

definition Set_field :: "gval \<Rightarrow> string \<Rightarrow> gval \<Rightarrow> error + gval" where
  "Set_field z kind rval =
     (case z of
        GStruct n p fs \<Rightarrow>
          (case filter (\<lambda>f. fst f = kind) fs of
             [f] \<Rightarrow>
               (if Kind (snd (snd f)) = Slice \<and> Elem_Name (snd (snd f)) = Elem_Name rval
                then Inr (GStruct n p
                       (map (\<lambda>g. if fst g = kind then (fst g, fst (snd g), rval) else g) fs))
                else Inl Panic)
           | _ \<Rightarrow> Inl Panic)
      | _ \<Rightarrow> Inl Panic)"

definition fieldValueInterface :: "typeFunc \<Rightarrow> StructField \<Rightarrow> gval \<Rightarrow> error + gval" where
  "fieldValueInterface tf f rval =
     (if Kind rval = Slice then
        (if Elem_Name rval = ''string'' then
           Inr (GPtr ''ArrayOfString''
                 (Some (GStruct ''ArrayOfString'' types_pkg [(''String'', False, rval)])))
         else if Elem_Name rval = ''int32'' then
           Inr (GPtr ''ArrayOfInt''
                 (Some (GStruct ''ArrayOfInt'' types_pkg [(''Int'', False, rval)])))
         else
           (let kind = Elem_Name (snd (snd f)) in
            case tf (''ArrayOf'' @ kind) of
              None \<Rightarrow> Inl Panic
            | Some z \<Rightarrow>
                (case Set_field z kind rval of
                   Inl e \<Rightarrow> Inl e
                 | Inr a \<Rightarrow> Inr (GPtr (Type_Name z) (Some a)))))
      else Inr rval)"

text \<open>
  The loop of \<^verbatim>\<open>fieldValue\<close> over the segments of the path.  The result is the
  \<^verbatim>\<open>interface{}\<close> value; \<open>None\<close> is Go's nil.
\<close>

fun fieldValue_loop :: "typeFunc \<Rightarrow> gval \<Rightarrow> string list \<Rightarrow> error + gval option" where
  "fieldValue_loop tf rval [] = Inr None"
| "fieldValue_loop tf rval (name # rest) =
     (case ucFirst name of
        Inl e \<Rightarrow> Inl e
      | Inr x \<Rightarrow>
          (case FieldByName rval x of
             Inl e \<Rightarrow> Inl e
           | Inr None \<Rightarrow> Inl errMissingField
           | Inr (Some f) \<Rightarrow>
               (let val = snd (snd f) in
                if isEmpty val then Inl errEmptyField
                else if rest = [] then
                  (case fieldValueInterface tf f val of
                     Inl e \<Rightarrow> Inl e
                   | Inr pval \<Rightarrow> Inr (Some pval))
                else fieldValue_loop tf val rest)))"

text \<open>
  \<^verbatim>\<open>rval.Elem()\<close> of a nil pointer is the zero Value, on which the first
  \<^verbatim>\<open>FieldByName\<close> of the loop panics.
\<close>

definition fieldValue :: "typeFunc \<Rightarrow> gval \<Rightarrow> string \<Rightarrow> error + gval option" where
  "fieldValue tf rval p =
     (case rval of
        GPtr n None \<Rightarrow> Inl Panic
      | GPtr n (Some v) \<Rightarrow> fieldValue_loop tf v (Split p (CHR ''.''))
      | _ \<Rightarrow> fieldValue_loop tf rval (Split p (CHR ''.'')))"

fun as_ArrayOfMOR :: "gval \<Rightarrow> ManagedObjectReference list option" where
  "as_ArrayOfMOR (GStruct n p [(f, a, GSlice en vs)]) =
     (if n = ''ArrayOfManagedObjectReference'' \<and> p = types_pkg
         \<and> f = ''ManagedObjectReference'' \<and> \<not> a
      then those (map as_MOR vs) else None)"
| "as_ArrayOfMOR v = None"

text \<open>
  The type switch of \<^verbatim>\<open>fieldRefs\<close>.  Dereferencing a nil pointer of one of the two
  pointer types panics.
\<close>

definition fieldRefs :: "gval option \<Rightarrow> error + ManagedObjectReference list" where
  "fieldRefs f =
     (case f of
        None \<Rightarrow> Inr []
      | Some fv \<Rightarrow>
          (case as_MOR fv of
             Some r \<Rightarrow> Inr [r]
           | None \<Rightarrow>
               (case fv of
                  GPtr n None \<Rightarrow>
                    (if n = ''ManagedObjectReference'' \<or> n = ''ArrayOfManagedObjectReference''
                     then Inl Panic else Inr [])
                | GPtr n (Some w) \<Rightarrow>
                    (case as_MOR w of
                       Some r \<Rightarrow> Inr [r]
                     | None \<Rightarrow>
                         (case as_ArrayOfMOR w of
                            Some rs \<Rightarrow> Inr rs
                          | None \<Rightarrow> Inr []))
                | _ \<Rightarrow> Inr [])))"

section \<open>Collecting the properties of one object\<close>

fun collectAll :: "typeFunc \<Rightarrow> gval \<Rightarrow> ObjectContent \<Rightarrow> error + ObjectContent"
  and collectAll_fields :: "typeFunc \<Rightarrow> StructField list \<Rightarrow> ObjectContent \<Rightarrow> error + ObjectContent"
where
  "collectAll tf (GStruct n p fs) content = collectAll_fields tf fs content"
| "collectAll tf (GPtr n v) content = Inl Panic"
| "collectAll tf (GString s) content = Inl Panic"
| "collectAll tf (GSlice n vs) content = Inl Panic"
| "collectAll tf (GInt32 i) content = Inl Panic"
| "collectAll tf (GBool b) content = Inl Panic"
| "collectAll_fields tf [] content = Inr content"
| "collectAll_fields tf (f # fs) content =
     (let val = snd (snd f) in
      if isEmpty val then collectAll_fields tf fs content
      else if fst (snd f) then
        (case collectAll tf val content of
           Inl e \<Rightarrow> Inl e
         | Inr content' \<Rightarrow> collectAll_fields tf fs content')
      else
        (case lcFirst (fst f) of
           Inl e \<Rightarrow> Inl e
         | Inr name \<Rightarrow>
             (case fieldValueInterface tf f val of
                Inl e \<Rightarrow> Inl e
              | Inr pval \<Rightarrow>
                  collectAll_fields tf fs
                    (content\<lparr>PropSet_c := PropSet_c content @ [\<lparr>Name = name, Val = Some pval\<rparr>]\<rparr>))))"

text \<open>
  One iteration of the loop of \<^verbatim>\<open>collectFields\<close>, on the pair of the references
  gathered so far and the object content, and the loop itself.  The \<^verbatim>\<open>switch\<close> has
  no default branch: any other error value leaves the content as it is.
\<close>

definition collectFields_step ::
  "typeFunc \<Rightarrow> (string \<Rightarrow> bool) \<Rightarrow> gval \<Rightarrow> string
    \<Rightarrow> ManagedObjectReference list \<times> ObjectContent
    \<Rightarrow> error + ManagedObjectReference list \<times> ObjectContent" where
  "collectFields_step tf recurse rval name st =
     (case fieldValue tf rval name of
        Inr val \<Rightarrow>
          (case (if recurse name then fieldRefs val else Inr []) of
             Inl e \<Rightarrow> Inl e
           | Inr rs \<Rightarrow>
               Inr (fst st @ rs,
                    (snd st)\<lparr>PropSet_c := PropSet_c (snd st) @ [\<lparr>Name = name, Val = val\<rparr>]\<rparr>))
      | Inl errEmptyField \<Rightarrow> Inr st
      | Inl errMissingField \<Rightarrow>
          Inr (fst st,
               (snd st)\<lparr>MissingSet := MissingSet (snd st)
                  @ [\<lparr>Path_m = name, Fault_m = InvalidProperty name\<rparr>]\<rparr>)
      | Inl Panic \<Rightarrow> Inl Panic
      | Inl (Fault ft) \<Rightarrow> Inr st)"

fun collectFields_loop ::
  "typeFunc \<Rightarrow> (string \<Rightarrow> bool) \<Rightarrow> gval \<Rightarrow> string list
    \<Rightarrow> ManagedObjectReference list \<times> ObjectContent
    \<Rightarrow> error + ManagedObjectReference list \<times> ObjectContent" where
  "collectFields_loop tf recurse rval [] st = Inr st"
| "collectFields_loop tf recurse rval (name # flds) st =
     (case collectFields_step tf recurse rval name st of
        Inl e \<Rightarrow> Inl e
      | Inr st' \<Rightarrow> collectFields_loop tf recurse rval flds st')"

definition collectFields ::
  "typeFunc \<Rightarrow> (string \<Rightarrow> bool) \<Rightarrow> gval \<Rightarrow> string list \<Rightarrow> ObjectContent
    \<Rightarrow> error + ManagedObjectReference list \<times> ObjectContent" where
  "collectFields tf recurse rval flds content =
     collectFields_loop tf recurse rval flds ([], content)"

section \<open>The registry\<close>

text \<open>
  Modelled from the spec: the object registry \<^verbatim>\<open>Map\<close> (its code is not among the
  sources; only its test is).  \<open>get(reference) -> object | absent\<close> is a lookup in a
  finite key-value store, and an absent reference is Go's nil.  An entry is the value that
  \<^verbatim>\<open>reflect.ValueOf\<close> shows for the registered object: a pointer to a record.
\<close>

type_synonym Registry = "(ManagedObjectReference \<times> gval) list"

definition Get :: "Registry \<Rightarrow> ManagedObjectReference \<Rightarrow> gval option" where
  "Get reg ref = map_of reg ref"

section \<open>Visiting one object\<close>

record retrieveResult =
  res :: RetrieveResult
  req :: RetrievePropertiesEx
  recurse :: "string \<Rightarrow> bool"
  collected :: "ManagedObjectReference \<Rightarrow> bool"

text \<open>
  \<^verbatim>\<open>reflect.ValueOf(obj).Elem()\<close> followed by \<^verbatim>\<open>rval.Type()\<close>:
  \<^verbatim>\<open>Elem\<close> panics on a value that is no pointer, and \<^verbatim>\<open>Type\<close> panics on the
  zero Value that \<^verbatim>\<open>Elem\<close> gives for a nil pointer.
\<close>

fun Elem :: "gval \<Rightarrow> error + gval" where
  "Elem (GPtr n (Some v)) = Inr v"
| "Elem v = Inl Panic"

text \<open>\<^verbatim>\<open>rval.Field(0)\<close>: panics on a value that is no struct or has no field.\<close>

fun Field0 :: "gval \<Rightarrow> error + gval" where
  "Field0 (GStruct n p (f # fs)) = Inr (snd (snd f))"
| "Field0 v = Inl Panic"

text \<open>The wrapper rule: a record outside package \<^verbatim>\<open>mo\<close> is replaced by its first field.\<close>

definition mo_value :: "gval \<Rightarrow> error + gval" where
  "mo_value obj =
     (case Elem obj of
        Inl e \<Rightarrow> Inl e
      | Inr rval \<Rightarrow> if path_Base (PkgPath rval) \<noteq> ''mo'' then Field0 rval else Inr rval)"

text \<open>
  The body of the inner loop of \<^verbatim>\<open>retrieveResult.collect\<close> for one property spec
  \<open>p\<close>, on the pair of the references gathered so far and the object content.  It has
  two parts: the test that ends in \<^verbatim>\<open>continue\<close> when the spec is for another type
  (\<^verbatim>\<open>Type.FieldByName\<close> panics on a type that is no struct), and the extraction.
\<close>

definition spec_applies :: "ManagedObjectReference \<Rightarrow> gval \<Rightarrow> PropertySpec \<Rightarrow> error + bool" where
  "spec_applies ref rval p =
     (if Type_p p \<noteq> Type ref then
        (case FieldByName rval (Type_p p) of
           Inl e \<Rightarrow> Inl e
         | Inr None \<Rightarrow> Inr False
         | Inr (Some field) \<Rightarrow> Inr (fst (snd field)))
      else Inr True)"

definition extract_prop ::
  "typeFunc \<Rightarrow> (string \<Rightarrow> bool) \<Rightarrow> gval \<Rightarrow> PropertySpec
    \<Rightarrow> ManagedObjectReference list \<times> ObjectContent
    \<Rightarrow> error + ManagedObjectReference list \<times> ObjectContent" where
  "extract_prop tf rec rval p st =
     (if isTrue (All_p p) then
        (case collectAll tf rval (snd st) of
           Inl e \<Rightarrow> Inl e
         | Inr content \<Rightarrow> Inr (fst st, content))
      else
        (case collectFields tf rec rval (PathSet p) (snd st) of
           Inl e \<Rightarrow> Inl e
         | Inr (rs, content) \<Rightarrow> Inr (fst st @ rs, content)))"

definition collect_prop ::
  "typeFunc \<Rightarrow> (string \<Rightarrow> bool) \<Rightarrow> ManagedObjectReference \<Rightarrow> gval \<Rightarrow> PropertySpec
    \<Rightarrow> ManagedObjectReference list \<times> ObjectContent
    \<Rightarrow> error + ManagedObjectReference list \<times> ObjectContent" where
  "collect_prop tf rec ref rval p st =
     (case spec_applies ref rval p of
        Inl e \<Rightarrow> Inl e
      | Inr False \<Rightarrow> Inr st
      | Inr True \<Rightarrow> extract_prop tf rec rval p st)"

fun collect_props ::
  "typeFunc \<Rightarrow> (string \<Rightarrow> bool) \<Rightarrow> ManagedObjectReference \<Rightarrow> gval \<Rightarrow> PropertySpec list
    \<Rightarrow> ManagedObjectReference list \<times> ObjectContent
    \<Rightarrow> error + ManagedObjectReference list \<times> ObjectContent" where
  "collect_props tf rec ref rval [] st = Inr st"
| "collect_props tf rec ref rval (p # ps) st =
     (case collect_prop tf rec ref rval p st of
        Inl e \<Rightarrow> Inl e
      | Inr st' \<Rightarrow> collect_props tf rec ref rval ps st')"

fun collect_specs ::
  "typeFunc \<Rightarrow> (string \<Rightarrow> bool) \<Rightarrow> ManagedObjectReference \<Rightarrow> gval \<Rightarrow> PropertyFilterSpec list
    \<Rightarrow> ManagedObjectReference list \<times> ObjectContent
    \<Rightarrow> error + ManagedObjectReference list \<times> ObjectContent" where
  "collect_specs tf rec ref rval [] st = Inr st"
| "collect_specs tf rec ref rval (spec # specs) st =
     (case collect_props tf rec ref rval (PropSet spec) st of
        Inl e \<Rightarrow> Inl e
      | Inr st' \<Rightarrow> collect_specs tf rec ref rval specs st')"

text \<open>
  \<^verbatim>\<open>retrieveResult.collect\<close> from the registry lookup to the end of the loop over the
  spec set: the object content of \<open>ref\<close> and the references to visit next.  A reference
  that the registry does not hold makes \<^verbatim>\<open>reflect.ValueOf(obj).Elem()\<close> panic.
\<close>

definition collect_object ::
  "typeFunc \<Rightarrow> Registry \<Rightarrow> retrieveResult \<Rightarrow> ManagedObjectReference
    \<Rightarrow> error + ManagedObjectReference list \<times> ObjectContent" where
  "collect_object tf reg rr ref =
     (case Get reg ref of
        None \<Rightarrow> Inl Panic
      | Some obj \<Rightarrow>
          (case mo_value obj of
             Inl e \<Rightarrow> Inl e
           | Inr rval \<Rightarrow>
               collect_specs tf (recurse rr) ref rval (SpecSet (req rr))
                 ([], \<lparr>Obj_c = ref, PropSet_c = [], MissingSet = []\<rparr>)))"

section \<open>The traversal\<close>

text \<open>
  \<^verbatim>\<open>retrieveResult.collect\<close> and the loop \<^verbatim>\<open>for _, rref := range refs\<close> that
  calls it.  The recursion is nested: the loop continues with the state that the call for
  the first reference returns.
\<close>

function collect ::
  "typeFunc \<Rightarrow> Registry \<Rightarrow> ManagedObjectReference \<Rightarrow> retrieveResult \<Rightarrow> error + retrieveResult"
  and collect_refs ::
  "typeFunc \<Rightarrow> Registry \<Rightarrow> ManagedObjectReference list \<Rightarrow> retrieveResult \<Rightarrow> error + retrieveResult"
where
  "collect tf reg ref rr =
     (if collected rr ref then Inr rr
      else
        (case collect_object tf reg rr ref of
           Inl e \<Rightarrow> Inl e
         | Inr (refs, content) \<Rightarrow>
             collect_refs tf reg refs
               (rr\<lparr>res := (res rr)\<lparr>Objects := Objects (res rr) @ [content]\<rparr>,
                   collected := (collected rr)(ref := True)\<rparr>)))"
| "collect_refs tf reg [] rr = Inr rr"
| "collect_refs tf reg (rref # refs) rr =
     (case collect tf reg rref rr of
        Inl e \<Rightarrow> Inl e
      | Inr rr' \<Rightarrow> collect_refs tf reg refs rr')"
  by pat_completeness auto

text \<open>
  Termination: every call that does not return at once marks a registry key as collected,
  and the registry is finite.
\<close>

lemma collect_object_present:
  "collect_object tf reg rr ref = Inr x \<Longrightarrow> ref \<in> fst ` set reg"
  by (auto simp: collect_object_def Get_def split: option.splits dest: map_of_SomeD intro: rev_image_eqI)

definition pending :: "Registry \<Rightarrow> retrieveResult \<Rightarrow> nat" where
  "pending reg rr = card {k \<in> fst ` set reg. \<not> collected rr k}"

lemma collect_mono_dom:
  "collect_collect_refs_dom (Inl (tf, reg, ref, rr)) \<Longrightarrow>
     collect tf reg ref rr = Inr rr' \<Longrightarrow> (\<forall>k. collected rr k \<longrightarrow> collected rr' k)"
  "collect_collect_refs_dom (Inr (tf, reg, refs, rr)) \<Longrightarrow>
     collect_refs tf reg refs rr = Inr rr' \<Longrightarrow> (\<forall>k. collected rr k \<longrightarrow> collected rr' k)"
proof (induction tf reg ref rr and tf reg refs rr arbitrary: rr' and rr' rule: collect_collect_refs.pinduct)
  case (1 tf reg ref rr)
  then show ?case
    by (auto simp: collect.psimps split: if_splits sum.splits prod.splits)
next
  case (2 tf reg rr)
  then show ?case by (simp add: collect_refs.psimps)
next
  case (3 tf reg rref refs rr)
  then show ?case
    by (auto simp: collect_refs.psimps split: sum.splits) 
qed


lemma pending_mono:
  "(\<forall>k. collected rr k \<longrightarrow> collected rr' k) \<Longrightarrow> pending reg rr' \<le> pending reg rr"
  unfolding pending_def by (rule card_mono) auto

lemma pending_less:
  assumes "ref \<in> fst ` set reg" and "\<not> collected rr ref"
  shows "pending reg (rr\<lparr>res := r, collected := (collected rr)(ref := True)\<rparr>) < pending reg rr"
  unfolding pending_def
proof (rule psubset_card_mono)
  show "finite {k \<in> fst ` set reg. \<not> collected rr k}" by simp
  show "{k \<in> fst ` set reg.
          \<not> collected (rr\<lparr>res := r, collected := (collected rr)(ref := True)\<rparr>) k}
        \<subset> {k \<in> fst ` set reg. \<not> collected rr k}"
    using assms by auto
qed

termination collect
proof (relation "inv_image (less_than <*lex*> less_than)
    (\<lambda>x. case x of Inl (tf, reg, ref, rr) \<Rightarrow> (pending reg rr, 0)
              | Inr (tf, reg, refs, rr) \<Rightarrow> (pending reg rr, Suc (length refs)))", goal_cases)
  case 1
  show ?case by auto
next
  case (2 tf reg ref rr x refs content)
  then show ?case
    using pending_less [of ref reg rr] collect_object_present [of tf reg rr ref x] by simp
next
  case (3 tf reg rref refs rr)
  show ?case by simp
next
  case (4 tf reg rref refs rr rr')
  then show ?case
    using pending_mono [of rr rr' reg] collect_mono_dom(1) [of tf reg rref rr rr']
    by (auto simp: le_less)
qed

declare collect.simps [simp del]

section \<open>Seeding and the service methods\<close>

text \<open>
  One iteration of \<^verbatim>\<open>for _, ss := range o.SelectSet\<close> in
  \<^verbatim>\<open>PropertyCollector.collect\<close>, on the pair of the seed references and the
  \<^verbatim>\<open>recurse\<close> map.  The type assertion panics on an entry that is no
  \<^verbatim>\<open>*types.TraversalSpec\<close>; the error of \<^verbatim>\<open>fieldValue\<close> is dropped and the
  value is then nil.
\<close>

definition seed_select ::
  "typeFunc \<Rightarrow> gval \<Rightarrow> BaseSelectionSpec
    \<Rightarrow> ManagedObjectReference list \<times> (string \<Rightarrow> bool)
    \<Rightarrow> error + ManagedObjectReference list \<times> (string \<Rightarrow> bool)" where
  "seed_select tf obj ss st =
     (case ss of
        SelectionSpec name \<Rightarrow> Inl Panic
      | TraversalSpec path sel \<Rightarrow>
          (let rec = (if sel \<noteq> None then (snd st)(path := True) else snd st) in
           case (case fieldValue tf obj path of
                   Inl Panic \<Rightarrow> Inl Panic
                 | Inl e \<Rightarrow> fieldRefs None
                 | Inr f \<Rightarrow> fieldRefs f) of
             Inl e \<Rightarrow> Inl e
           | Inr rs \<Rightarrow> Inr (fst st @ rs, rec)))"

fun seed_selects ::
  "typeFunc \<Rightarrow> gval \<Rightarrow> BaseSelectionSpec list
    \<Rightarrow> ManagedObjectReference list \<times> (string \<Rightarrow> bool)
    \<Rightarrow> error + ManagedObjectReference list \<times> (string \<Rightarrow> bool)" where
  "seed_selects tf obj [] st = Inr st"
| "seed_selects tf obj (ss # sss) st =
     (case seed_select tf obj ss st of
        Inl e \<Rightarrow> Inl e
      | Inr st' \<Rightarrow> seed_selects tf obj sss st')"

text \<open>The body of \<^verbatim>\<open>for _, o := range spec.ObjectSet\<close>.\<close>

definition seed_object ::
  "typeFunc \<Rightarrow> Registry \<Rightarrow> PropertyFilterSpec \<Rightarrow> ObjectSpec
    \<Rightarrow> ManagedObjectReference list \<times> (string \<Rightarrow> bool)
    \<Rightarrow> error + ManagedObjectReference list \<times> (string \<Rightarrow> bool)" where
  "seed_object tf reg spec o_spec st =
     (case Get reg (Obj o_spec) of
        None \<Rightarrow>
          (if isFalse (ReportMissingObjectsInResults spec)
           then Inl (Fault (ManagedObjectNotFound (Obj o_spec)))
           else Inr st)
      | Some obj \<Rightarrow>
          seed_selects tf obj (case SelectSet o_spec of None \<Rightarrow> [] | Some sss \<Rightarrow> sss)
            (if SelectSet o_spec = None \<or> isFalse (Skip o_spec)
             then (fst st @ [Obj o_spec], snd st) else st))"

fun seed_objects ::
  "typeFunc \<Rightarrow> Registry \<Rightarrow> PropertyFilterSpec \<Rightarrow> ObjectSpec list
    \<Rightarrow> ManagedObjectReference list \<times> (string \<Rightarrow> bool)
    \<Rightarrow> error + ManagedObjectReference list \<times> (string \<Rightarrow> bool)" where
  "seed_objects tf reg spec [] st = Inr st"
| "seed_objects tf reg spec (o_spec # os) st =
     (case seed_object tf reg spec o_spec st of
        Inl e \<Rightarrow> Inl e
      | Inr st' \<Rightarrow> seed_objects tf reg spec os st')"

fun seed_specs ::
  "typeFunc \<Rightarrow> Registry \<Rightarrow> PropertyFilterSpec list
    \<Rightarrow> ManagedObjectReference list \<times> (string \<Rightarrow> bool)
    \<Rightarrow> error + ManagedObjectReference list \<times> (string \<Rightarrow> bool)" where
  "seed_specs tf reg [] st = Inr st"
| "seed_specs tf reg (spec # specs) st =
     (case seed_objects tf reg spec (ObjectSet spec) st of
        Inl e \<Rightarrow> Inl e
      | Inr st' \<Rightarrow> seed_specs tf reg specs st')"

text \<open>
  \<^verbatim>\<open>PropertyCollector.collect\<close>: the result, the fault
  \<^verbatim>\<open>ManagedObjectNotFound\<close>, or a panic.
\<close>

definition PC_collect :: "typeFunc \<Rightarrow> Registry \<Rightarrow> RetrievePropertiesEx \<Rightarrow> error + RetrieveResult" where
  "PC_collect tf reg r =
     (case seed_specs tf reg (SpecSet r) ([], \<lambda>p. False) of
        Inl e \<Rightarrow> Inl e
      | Inr (refs, rec) \<Rightarrow>
          (case collect_refs tf reg refs
                  \<lparr>res = \<lparr>Token = [], Objects = []\<rparr>, req = r, recurse = rec,
                   collected = \<lambda>ref. False\<rparr> of
             Inl e \<Rightarrow> Inl e
           | Inr rr \<Rightarrow> Inr (res rr)))"

text \<open>
  The response bodies.  Of the \<^verbatim>\<open>soap.Fault\<close> that the helper \<^verbatim>\<open>Fault\<close> builds,
  the model keeps the vim fault it carries.
\<close>

record RetrievePropertiesExResponse =
  Returnval_x :: "RetrieveResult option"

record RetrievePropertiesExBody =
  Res_x :: "RetrievePropertiesExResponse option"
  Fault_x :: "MethodFault option"

record RetrievePropertiesResponse =
  Returnval :: "ObjectContent list"

record RetrievePropertiesBody =
  Res :: "RetrievePropertiesResponse option"
  Fault_ :: "MethodFault option"

definition RetrievePropertiesEx_m ::
  "typeFunc \<Rightarrow> Registry \<Rightarrow> RetrievePropertiesEx \<Rightarrow> error + RetrievePropertiesExBody" where
  "RetrievePropertiesEx_m tf reg r =
     (case PC_collect tf reg r of
        Inl (Fault fault) \<Rightarrow> Inr \<lparr>Res_x = None, Fault_x = Some fault\<rparr>
      | Inl e \<Rightarrow> Inl e
      | Inr result \<Rightarrow> Inr \<lparr>Res_x = Some \<lparr>Returnval_x = Some result\<rparr>, Fault_x = None\<rparr>)"

text \<open>
  \<^verbatim>\<open>RetrieveProperties\<close>: the chain
  \<^verbatim>\<open>res.(*methods.RetrievePropertiesExBody).Res.Returnval.Objects\<close> dereferences two
  pointers, and a nil one panics.
\<close>

definition RetrieveProperties_m ::
  "typeFunc \<Rightarrow> Registry \<Rightarrow> RetrieveProperties \<Rightarrow> error + RetrievePropertiesBody" where
  "RetrieveProperties_m tf reg r =
     (case RetrievePropertiesEx_m tf reg \<lparr>This = This_l r, SpecSet = SpecSet_l r\<rparr> of
        Inl e \<Rightarrow> Inl e
      | Inr body \<Rightarrow>
          (if Fault_x body \<noteq> None then Inr \<lparr>Res = None, Fault_ = Fault_x body\<rparr>
           else
             (case Res_x body of
                None \<Rightarrow> Inl Panic
              | Some rsp \<Rightarrow>
                  (case Returnval_x rsp of
                     None \<Rightarrow> Inl Panic
                   | Some rv \<Rightarrow> Inr \<lparr>Res = Some \<lparr>Returnval = Objects rv\<rparr>, Fault_ = None\<rparr>))))"

section \<open>Sample data\<close>

text \<open>
  A registry of three folders with a cycle, in the shape of \<^verbatim>\<open>mo.Folder\<close> (a managed
  entity with a name, a parent and child entities), and the part of the type registry that
  the folders need.
\<close>

definition typeFunc_vim :: typeFunc where
  "typeFunc_vim name =
     (if name = ''ArrayOfManagedObjectReference'' then
        Some (GStruct ''ArrayOfManagedObjectReference'' types_pkg
               [(''ManagedObjectReference'', False, GSlice ''ManagedObjectReference'' [])])
      else None)"

definition Folder_record :: "ManagedObjectReference \<Rightarrow> string \<Rightarrow> ManagedObjectReference list \<Rightarrow> gval" where
  "Folder_record self name children =
     GStruct ''Folder'' mo_pkg
       [(''ManagedEntity'', True, GStruct ''ManagedEntity'' mo_pkg
           [(''ExtensibleManagedObject'', True, GStruct ''ExtensibleManagedObject'' mo_pkg
               [(''Self'', False, MOR self)]),
            (''Parent'', False, GPtr ''ManagedObjectReference'' None),
            (''Name'', False, GString name)]),
        (''ChildType'', False, GSlice ''string'' [GString ''Folder'']),
        (''ChildEntity'', False, GSlice ''ManagedObjectReference'' (map MOR children))]"

definition Folder :: "ManagedObjectReference \<Rightarrow> string \<Rightarrow> ManagedObjectReference list \<Rightarrow> gval" where
  "Folder self name children = GPtr ''Folder'' (Some (Folder_record self name children))"

definition fA :: ManagedObjectReference where "fA = \<lparr>Type = ''Folder'', Value = ''A''\<rparr>"
definition fB :: ManagedObjectReference where "fB = \<lparr>Type = ''Folder'', Value = ''B''\<rparr>"
definition fC :: ManagedObjectReference where "fC = \<lparr>Type = ''Folder'', Value = ''C''\<rparr>"

definition pc_ref :: ManagedObjectReference where
  "pc_ref = \<lparr>Type = ''PropertyCollector'', Value = ''propertyCollector''\<rparr>"

definition reg_cycle :: Registry where
  "reg_cycle = [(fA, Folder fA ''a'' [fB, fC]), (fB, Folder fB [] [fA]), (fC, Folder fC ''c'' [])]"

definition req_cycle :: RetrievePropertiesEx where
  "req_cycle = \<lparr>This = pc_ref,
     SpecSet = [\<lparr>PropSet = [\<lparr>Type_p = ''Folder'', All_p = None,
                               PathSet = [''name'', ''childEntity'']\<rparr>],
                 ObjectSet = [\<lparr>Obj = fA, Skip = None,
                                SelectSet = Some [TraversalSpec ''childEntity'' (Some [])]\<rparr>],
                 ReportMissingObjectsInResults = None\<rparr>]\<rparr>"

definition reg_dangling :: Registry where
  "reg_dangling = [(fA, Folder fA ''a'' [fB])]"

definition req_dangling :: "bool option \<Rightarrow> RetrievePropertiesEx" where
  "req_dangling flag = \<lparr>This = pc_ref,
     SpecSet = [\<lparr>PropSet = [\<lparr>Type_p = ''Folder'', All_p = None, PathSet = [''name'']\<rparr>],
                 ObjectSet = [\<lparr>Obj = fA, Skip = None,
                                SelectSet = Some [TraversalSpec ''childEntity'' None]\<rparr>],
                 ReportMissingObjectsInResults = flag\<rparr>]\<rparr>"

definition legacy_of :: "RetrievePropertiesEx \<Rightarrow> RetrieveProperties" where
  "legacy_of r = \<lparr>This_l = This r, SpecSet_l = SpecSet r\<rparr>"

definition fD :: ManagedObjectReference where "fD = \<lparr>Type = ''Folder'', Value = ''D''\<rparr>"

definition req_absent :: "bool option \<Rightarrow> RetrievePropertiesEx" where
  "req_absent flag = \<lparr>This = pc_ref,
     SpecSet = [\<lparr>PropSet = [\<lparr>Type_p = ''Folder'', All_p = None,
                               PathSet = [''name'', ''childEntity'']\<rparr>],
                 ObjectSet = [\<lparr>Obj = fD, Skip = None, SelectSet = None\<rparr>,
                              \<lparr>Obj = fA, Skip = None,
                                SelectSet = Some [TraversalSpec ''childEntity'' (Some [])]\<rparr>],
                 ReportMissingObjectsInResults = flag\<rparr>]\<rparr>"

definition req_skip :: "BaseSelectionSpec list option \<Rightarrow> RetrievePropertiesEx" where
  "req_skip sel = \<lparr>This = pc_ref,
     SpecSet = [\<lparr>PropSet = [\<lparr>Type_p = ''Folder'', All_p = None, PathSet = [''name'']\<rparr>],
                 ObjectSet = [\<lparr>Obj = fA, Skip = Some True, SelectSet = sel\<rparr>],
                 ReportMissingObjectsInResults = None\<rparr>]\<rparr>"

definition req_selection :: "ManagedObjectReference \<Rightarrow> bool option \<Rightarrow> RetrievePropertiesEx" where
  "req_selection root flag = \<lparr>This = pc_ref,
     SpecSet = [\<lparr>PropSet = [\<lparr>Type_p = ''Folder'', All_p = None, PathSet = [''name'']\<rparr>],
                 ObjectSet = [\<lparr>Obj = root, Skip = None,
                                SelectSet = Some [SelectionSpec ''visitFolders'']\<rparr>],
                 ReportMissingObjectsInResults = flag\<rparr>]\<rparr>"

definition refs_of :: "error + RetrieveResult \<Rightarrow> error + ManagedObjectReference list" where
  "refs_of out = map_sum id (\<lambda>r. map Obj_c (Objects r)) out"

section \<open>What a visit leaves alone\<close>

lemma collectAll_Obj_c:
  "collectAll tf v c = Inr c' \<Longrightarrow> Obj_c c' = Obj_c c"
  "collectAll_fields tf fs c = Inr c' \<Longrightarrow> Obj_c c' = Obj_c c"
proof (induction tf v c and tf fs c arbitrary: c' and c' rule: collectAll_collectAll_fields.induct)
  case (8 tf f fs content)
  note run = \<open>collectAll_fields tf (f # fs) content = Inr c'\<close>
  show ?case
  proof (cases "isEmpty (snd (snd f))")
    case True
    with run have "collectAll_fields tf fs content = Inr c'" by simp
    with True show ?thesis by (rule "8.IH"(1) [OF refl])
  next
    case ne: False
    show ?thesis
    proof (cases "fst (snd f)")
      case True
      with ne run obtain b where
        b: "collectAll tf (snd (snd f)) content = Inr b" and rest: "collectAll_fields tf fs b = Inr c'"
        by (auto simp: Let_def split: sum.splits)
      have "Obj_c b = Obj_c content" using ne True b by (rule "8.IH"(2) [OF refl])
      moreover have "Obj_c c' = Obj_c b" using ne True b rest by (rule "8.IH"(3) [OF refl])
      ultimately show ?thesis by simp
    next
      case False
      with ne run obtain b ba where
        b: "lcFirst (fst f) = Inr b" and ba: "fieldValueInterface tf f (snd (snd f)) = Inr ba"
        and rest: "collectAll_fields tf fs
              (content\<lparr>PropSet_c := PropSet_c content @ [\<lparr>Name = b, Val = Some ba\<rparr>]\<rparr>) = Inr c'"
        by (auto simp: Let_def split: sum.splits)
      have "Obj_c c' = Obj_c (content\<lparr>PropSet_c := PropSet_c content @ [\<lparr>Name = b, Val = Some ba\<rparr>]\<rparr>)"
        using ne False b ba rest by (rule "8.IH"(4) [OF refl])
      then show ?thesis by simp
    qed
  qed
qed simp_all

lemma collectFields_step_Obj_c:
  "collectFields_step tf rec rval name st = Inr st' \<Longrightarrow> Obj_c (snd st') = Obj_c (snd st)"
  unfolding collectFields_step_def
  by (cases st) (auto split: sum.splits error.splits if_splits)

lemma collectFields_loop_Obj_c:
  "collectFields_loop tf rec rval flds st = Inr st' \<Longrightarrow> Obj_c (snd st') = Obj_c (snd st)"
  by (induction flds arbitrary: st) (auto split: sum.splits dest: collectFields_step_Obj_c)

lemma collectFields_Obj_c:
  "collectFields tf rec rval flds c = Inr (rs, c') \<Longrightarrow> Obj_c c' = Obj_c c"
  unfolding collectFields_def by (drule collectFields_loop_Obj_c) simp

lemma extract_prop_Obj_c:
  "extract_prop tf rec rval p st = Inr st' \<Longrightarrow> Obj_c (snd st') = Obj_c (snd st)"
  unfolding extract_prop_def
  by (auto split: if_splits sum.splits prod.splits dest: collectAll_Obj_c(1) collectFields_Obj_c)

lemma collect_prop_Obj_c:
  "collect_prop tf rec ref rval p st = Inr st' \<Longrightarrow> Obj_c (snd st') = Obj_c (snd st)"
  unfolding collect_prop_def
  by (auto split: sum.splits bool.splits dest: extract_prop_Obj_c)

lemma collect_props_Obj_c:
  "collect_props tf rec ref rval ps st = Inr st' \<Longrightarrow> Obj_c (snd st') = Obj_c (snd st)"
  by (induction ps arbitrary: st) (auto split: sum.splits dest: collect_prop_Obj_c)

lemma collect_specs_Obj_c:
  "collect_specs tf rec ref rval specs st = Inr st' \<Longrightarrow> Obj_c (snd st') = Obj_c (snd st)"
  by (induction specs arbitrary: st) (auto split: sum.splits dest: collect_props_Obj_c)

lemma collect_object_Obj_c:
  "collect_object tf reg rr ref = Inr (refs, content) \<Longrightarrow> Obj_c content = ref"
  by (auto simp: collect_object_def split: option.splits sum.splits dest: collect_specs_Obj_c)

definition emitted_once :: "retrieveResult \<Rightarrow> bool" where
  "emitted_once rr \<longleftrightarrow>
     distinct (map Obj_c (Objects (res rr)))
     \<and> list_all (\<lambda>c. collected rr (Obj_c c)) (Objects (res rr))"

lemma collect_emitted_once:
  "collect tf reg ref rr = Inr rr' \<Longrightarrow> emitted_once rr \<Longrightarrow> emitted_once rr'"
  "collect_refs tf reg refs rr = Inr rr' \<Longrightarrow> emitted_once rr \<Longrightarrow> emitted_once rr'"
proof (induction tf reg ref rr and tf reg refs rr arbitrary: rr' and rr' rule: collect_collect_refs.induct)
  case (1 tf reg ref rr)
  show ?case
  proof (cases "collected rr ref")
    case True
    with 1 show ?thesis by (simp add: collect.simps)
  next
    case False
    from False 1(2) obtain refs content where
      co: "collect_object tf reg rr ref = Inr (refs, content)"
      and rec: "collect_refs tf reg refs
               (rr\<lparr>res := (res rr)\<lparr>Objects := Objects (res rr) @ [content]\<rparr>,
                   collected := (collected rr)(ref := True)\<rparr>) = Inr rr'"
      by (auto simp: collect.simps split: sum.splits prod.splits)
    have oc: "Obj_c content = ref" using co by (rule collect_object_Obj_c)
    have "emitted_once (rr\<lparr>res := (res rr)\<lparr>Objects := Objects (res rr) @ [content]\<rparr>,
                   collected := (collected rr)(ref := True)\<rparr>)"
      using 1(3) False oc by (auto simp: emitted_once_def list_all_iff)
    with 1(1) [OF False co refl rec] show ?thesis by simp
  qed
next
  case (2 tf reg rr)
  then show ?case by simp
next
  case (3 tf reg rref refs rr)
  then show ?case by (auto split: sum.splits)
qed

section \<open>Seeding, step by step\<close>

lemma seed_select_error: "seed_select tf obj ss st = Inl e \<Longrightarrow> e = Panic"
  unfolding seed_select_def fieldRefs_def
  by (auto simp: Let_def split: BaseSelectionSpec.splits sum.splits error.splits option.splits
      gval.splits if_splits)

lemma seed_selects_error: "seed_selects tf obj sss st = Inl e \<Longrightarrow> e = Panic"
  by (induction sss arbitrary: st) (auto split: sum.splits dest: seed_select_error)

lemma seed_select_frame:
  "seed_select tf obj ss (refs, rec) =
     (case seed_select tf obj ss ([], rec) of
        Inl e \<Rightarrow> Inl e
      | Inr (ts, rec') \<Rightarrow> Inr (refs @ ts, rec'))"
  unfolding seed_select_def
  by (auto simp: Let_def split: BaseSelectionSpec.splits sum.splits)

lemma seed_selects_frame:
  "seed_selects tf obj sss (refs, rec) =
     (case seed_selects tf obj sss ([], rec) of
        Inl e \<Rightarrow> Inl e
      | Inr (ts, rec') \<Rightarrow> Inr (refs @ ts, rec'))"
proof (induction sss arbitrary: refs rec)
  case Nil
  show ?case by simp
next
  case (Cons ss sss)
  show ?case
  proof (cases "seed_select tf obj ss ([], rec)")
    case (Inl e)
    then show ?thesis using seed_select_frame [of tf obj ss refs rec] by simp
  next
    case (Inr st)
    obtain ts rec1 where st: "st = (ts, rec1)" by (cases st)
    have one: "seed_select tf obj ss (refs, rec) = Inr (refs @ ts, rec1)"
      using seed_select_frame [of tf obj ss refs rec] Inr st by simp
    show ?thesis
      using Cons.IH [of "refs @ ts" rec1] Cons.IH [of ts rec1] one Inr st
      by (auto split: sum.splits)
  qed
qed

lemma seed_selects_SelectionSpec:
  "SelectionSpec name \<in> set sss \<Longrightarrow> seed_selects tf obj sss st = Inl Panic"
proof (induction sss arbitrary: st)
  case Nil
  then show ?case by simp
next
  case (Cons ss sss)
  show ?case
  proof (cases "seed_select tf obj ss st")
    case (Inl e)
    then show ?thesis using seed_select_error [OF Inl] by simp
  next
    case (Inr st')
    then have "ss \<noteq> SelectionSpec name" by (auto simp: seed_select_def)
    with Cons.prems have "SelectionSpec name \<in> set sss" by simp
    then show ?thesis using Inr Cons.IH by simp
  qed
qed

lemma seed_objects_append:
  "seed_objects tf reg spec (os_before @ os_after) st =
     (case seed_objects tf reg spec os_before st of
        Inl e \<Rightarrow> Inl e
      | Inr st' \<Rightarrow> seed_objects tf reg spec os_after st')"
  by (induction os_before arbitrary: st) (auto split: sum.splits)

lemma seed_specs_append:
  "seed_specs tf reg (before @ after) st =
     (case seed_specs tf reg before st of
        Inl e \<Rightarrow> Inl e
      | Inr st' \<Rightarrow> seed_specs tf reg after st')"
  by (induction before arbitrary: st) (auto split: sum.splits)

text \<open>The seeding from the point where the loop stands before object spec \<open>o\<close>.\<close>

lemma seed_specs_reach:
  assumes "SpecSet r = before @ spec # after"
    and "ObjectSet spec = os_before @ o_spec # os_after"
    and "seed_specs tf reg before st0 = Inr st_a"
    and "seed_objects tf reg spec os_before st_a = Inr st_b"
  shows "seed_specs tf reg (SpecSet r) st0 =
     (case seed_object tf reg spec o_spec st_b of
        Inl e \<Rightarrow> Inl e
      | Inr st3 \<Rightarrow>
          (case seed_objects tf reg spec os_after st3 of
             Inl e \<Rightarrow> Inl e
           | Inr st4 \<Rightarrow> seed_specs tf reg after st4))"
  using assms by (simp add: seed_specs_append seed_objects_append split: sum.splits)

section \<open>Only registered objects are emitted\<close>

definition present_only :: "Registry \<Rightarrow> retrieveResult \<Rightarrow> bool" where
  "present_only reg rr \<longleftrightarrow> list_all (\<lambda>c. Get reg (Obj_c c) \<noteq> None) (Objects (res rr))"

lemma collect_object_Get:
  "collect_object tf reg rr ref = Inr x \<Longrightarrow> Get reg ref \<noteq> None"
  by (auto simp: collect_object_def split: option.splits)

lemma collect_present_only:
  "collect tf reg ref rr = Inr rr' \<Longrightarrow> present_only reg rr \<Longrightarrow> present_only reg rr'"
  "collect_refs tf reg refs rr = Inr rr' \<Longrightarrow> present_only reg rr \<Longrightarrow> present_only reg rr'"
proof (induction tf reg ref rr and tf reg refs rr arbitrary: rr' and rr' rule: collect_collect_refs.induct)
  case (1 tf reg ref rr)
  show ?case
  proof (cases "collected rr ref")
    case True
    with 1 show ?thesis by (simp add: collect.simps)
  next
    case False
    from False 1(2) obtain refs content where
      co: "collect_object tf reg rr ref = Inr (refs, content)"
      and rec: "collect_refs tf reg refs
               (rr\<lparr>res := (res rr)\<lparr>Objects := Objects (res rr) @ [content]\<rparr>,
                   collected := (collected rr)(ref := True)\<rparr>) = Inr rr'"
      by (auto simp: collect.simps split: sum.splits prod.splits)
    have "Obj_c content = ref" using co by (rule collect_object_Obj_c)
    moreover have "Get reg ref \<noteq> None" using co by (rule collect_object_Get)
    ultimately have "present_only reg (rr\<lparr>res := (res rr)\<lparr>Objects := Objects (res rr) @ [content]\<rparr>,
                   collected := (collected rr)(ref := True)\<rparr>)"
      using 1(3) by (simp add: present_only_def)
    with 1(1) [OF False co refl rec] show ?thesis by simp
  qed
next
  case (2 tf reg rr)
  then show ?case by simp
next
  case (3 tf reg rref refs rr)
  then show ?case by (auto split: sum.splits)
qed

lemma PC_collect_present:
  assumes "PC_collect tf reg r = Inr result" and "c \<in> set (Objects result)"
  shows "Get reg (Obj_c c) \<noteq> None"
proof -
  from assms(1) obtain refs rec rr where
    run: "collect_refs tf reg refs
        \<lparr>res = \<lparr>Token = [], Objects = []\<rparr>, req = r, recurse = rec,
         collected = \<lambda>ref. False\<rparr> = Inr rr" and r: "result = res rr"
    by (auto simp: PC_collect_def split: sum.splits prod.splits)
  have "present_only reg \<lparr>res = \<lparr>Token = [], Objects = []\<rparr>, req = r, recurse = rec,
         collected = \<lambda>ref. False\<rparr>"
    by (simp add: present_only_def)
  with run have "present_only reg rr" by (auto dest: collect_present_only(2))
  with assms(2) r show ?thesis by (simp add: present_only_def list_all_iff)
qed

section \<open>Claims\<close>

text \<open>
  C1.  For every registry and every request, also on object graphs with cycles that
  recursive traversal specs reach, the retrieval terminates, and no reference appears more
  than once in the \<open>Objects\<close> of the result it returns.  Termination is the totality of
  \<open>collect\<close>, whose recursion was shown to terminate above; a run ends with a result,
  with the fault or with a panic, and the result it returns never names a reference twice.
\<close>

theorem C1_no_reference_twice:
  "PC_collect tf reg r = Inr result \<Longrightarrow> distinct (map Obj_c (Objects result))"
proof -
  assume a: "PC_collect tf reg r = Inr result"
  then obtain refs rec rr where
    "collect_refs tf reg refs
        \<lparr>res = \<lparr>Token = [], Objects = []\<rparr>, req = r, recurse = rec,
         collected = \<lambda>ref. False\<rparr> = Inr rr" and "result = res rr"
    by (auto simp: PC_collect_def split: sum.splits prod.splits)
  moreover have "emitted_once \<lparr>res = \<lparr>Token = [], Objects = []\<rparr>, req = r, recurse = rec,
         collected = \<lambda>ref. False\<rparr>"
    by (simp add: emitted_once_def)
  ultimately have "emitted_once rr" by (auto dest: collect_emitted_once(2))
  then show ?thesis using \<open>result = res rr\<close> by (simp add: emitted_once_def)
qed

theorem C1_no_reference_twice_witness:
  "\<exists>result. PC_collect typeFunc_vim reg_cycle req_cycle = Inr result
     \<and> map Obj_c (Objects result) = [fA, fB, fC]
     \<and> distinct (map Obj_c (Objects result))"
proof -
  have "refs_of (PC_collect typeFunc_vim reg_cycle req_cycle) = Inr [fA, fB, fC]"
    by code_simp
  then obtain result where r: "PC_collect typeFunc_vim reg_cycle req_cycle = Inr result"
    and m: "map Obj_c (Objects result) = [fA, fB, fC]"
    by (cases "PC_collect typeFunc_vim reg_cycle req_cycle") (auto simp: refs_of_def)
  have d: "distinct (map Obj_c (Objects result))" by (rule C1_no_reference_twice [OF r])
  show ?thesis by (rule exI [of _ result], rule conjI [OF r], rule conjI [OF m d])
qed

text \<open>
  C3.  When the seeding loop reaches an object spec whose root the registry does not hold
  (the object specs before it were seeded without fault or panic): with the flag
  \<open>reportMissingObjectsInResults\<close> of its property filter spec unset (nil or false),
  \<open>RetrievePropertiesEx\<close> returns the fault \<open>ManagedObjectNotFound\<close> carrying that
  reference and no result; with the flag set, the absent root is skipped silently: the seed
  state is unchanged, no fault is raised, the seeding goes on with the object specs after it,
  and no result holds an object content for it.
\<close>

theorem C3_absent_root:
  assumes "SpecSet r = before @ spec # after"
    and "ObjectSet spec = os_before @ o_spec # os_after"
    and "seed_specs tf reg before ([], \<lambda>p. False) = Inr st_a"
    and "seed_objects tf reg spec os_before st_a = Inr st_b"
    and "Get reg (Obj o_spec) = None"
  shows "(isFalse (ReportMissingObjectsInResults spec) \<longrightarrow>
            RetrievePropertiesEx_m tf reg r
              = Inr \<lparr>Res_x = None, Fault_x = Some (ManagedObjectNotFound (Obj o_spec))\<rparr>)
       \<and> (ReportMissingObjectsInResults spec = Some True \<longrightarrow>
            seed_object tf reg spec o_spec st_b = Inr st_b
          \<and> seed_specs tf reg (SpecSet r) ([], \<lambda>p. False)
              = (case seed_objects tf reg spec os_after st_b of
                   Inl e \<Rightarrow> Inl e
                 | Inr st3 \<Rightarrow> seed_specs tf reg after st3)
          \<and> (\<forall>result. PC_collect tf reg r = Inr result
                 \<longrightarrow> Obj o_spec \<notin> Obj_c ` set (Objects result)))"
proof (intro conjI impI allI)
  assume "isFalse (ReportMissingObjectsInResults spec)"
  then have "seed_object tf reg spec o_spec st_b = Inl (Fault (ManagedObjectNotFound (Obj o_spec)))"
    using assms(5) by (simp add: seed_object_def)
  then have "seed_specs tf reg (SpecSet r) ([], \<lambda>p. False)
      = Inl (Fault (ManagedObjectNotFound (Obj o_spec)))"
    using seed_specs_reach [OF assms(1-4)] by simp
  then show "RetrievePropertiesEx_m tf reg r
      = Inr \<lparr>Res_x = None, Fault_x = Some (ManagedObjectNotFound (Obj o_spec))\<rparr>"
    by (simp add: RetrievePropertiesEx_m_def PC_collect_def)
next
  assume "ReportMissingObjectsInResults spec = Some True"
  then show skip: "seed_object tf reg spec o_spec st_b = Inr st_b"
    using assms(5) by (simp add: seed_object_def)
  show "seed_specs tf reg (SpecSet r) ([], \<lambda>p. False)
      = (case seed_objects tf reg spec os_after st_b of
           Inl e \<Rightarrow> Inl e
         | Inr st3 \<Rightarrow> seed_specs tf reg after st3)"
    using seed_specs_reach [OF assms(1-4)] skip by simp
next
  fix result
  assume "PC_collect tf reg r = Inr result"
  then have "Get reg (Obj_c c) \<noteq> None" if "c \<in> set (Objects result)" for c
    using that by (rule PC_collect_present)
  then show "Obj o_spec \<notin> Obj_c ` set (Objects result)"
    using assms(5) by force
qed

theorem C3_absent_root_witness:
  "Get reg_cycle fD = None
   \<and> RetrievePropertiesEx_m typeFunc_vim reg_cycle (req_absent None)
       = Inr \<lparr>Res_x = None, Fault_x = Some (ManagedObjectNotFound fD)\<rparr>
   \<and> RetrievePropertiesEx_m typeFunc_vim reg_cycle (req_absent (Some False))
       = Inr \<lparr>Res_x = None, Fault_x = Some (ManagedObjectNotFound fD)\<rparr>
   \<and> refs_of (PC_collect typeFunc_vim reg_cycle (req_absent (Some True))) = Inr [fA, fB, fC]"
proof -
  have g: "Get reg_cycle fD = None" by code_simp
  have ok: "refs_of (PC_collect typeFunc_vim reg_cycle (req_absent (Some True))) = Inr [fA, fB, fC]"
    by code_simp
  have s0: "seed_specs typeFunc_vim reg_cycle [] ([], \<lambda>p. False) = Inr ([], \<lambda>p. False)" by simp
  have s1: "\<And>spec. seed_objects typeFunc_vim reg_cycle spec [] ([], \<lambda>p. False) = Inr ([], \<lambda>p. False)"
    by simp
  have "RetrievePropertiesEx_m typeFunc_vim reg_cycle (req_absent flag)
       = Inr \<lparr>Res_x = None, Fault_x = Some (ManagedObjectNotFound fD)\<rparr>" if "isFalse flag" for flag
    using C3_absent_root [where r = "req_absent flag" and before = "[]" and after = "[]"
        and spec = "hd (SpecSet (req_absent flag))" and os_before = "[]"
        and o_spec = "\<lparr>Obj = fD, Skip = None, SelectSet = None\<rparr>"
        and os_after = "[\<lparr>Obj = fA, Skip = None,
                      SelectSet = Some [TraversalSpec ''childEntity'' (Some [])]\<rparr>]"
        and tf = typeFunc_vim and reg = reg_cycle, OF _ _ s0 s1] g that
    by (simp add: req_absent_def)
  from this [of None] this [of "Some False"] g ok show ?thesis by simp
qed

text \<open>
  C4.  The claim says that a reference popped from the frontier that the registry does not
  hold ends in the object-not-found fault or is skipped, and is never dereferenced.  The
  visit has no such check: only the roots are looked up while seeding.  Folder \<open>A\<close>
  lists a child \<open>B\<close> that is not registered; following \<open>childEntity\<close> from \<open>A\<close>
  puts \<open>B\<close> on the frontier, and the visit of \<open>B\<close> panics, with the flag unset and
  with the flag set.
\<close>

theorem C4_dangling_reference_panics:
  "Get reg_dangling fB = None
   \<and> RetrievePropertiesEx_m typeFunc_vim reg_dangling (req_dangling None) = Inl Panic
   \<and> RetrievePropertiesEx_m typeFunc_vim reg_dangling (req_dangling (Some True)) = Inl Panic"
  by code_simp

text \<open>
  C7 as stated fails: an object spec with \<open>skip\<close> true and no select set (a nil
  \<open>selectSet\<close>) has its root seeded, and the root's object content is emitted.
\<close>

theorem C7_skip_counterexample:
  "Get reg_cycle fA \<noteq> None
   \<and> refs_of (PC_collect typeFunc_vim reg_cycle (req_skip None)) = Inr [fA]"
  by code_simp

text \<open>
  C7, amended.  For an object spec whose root the registry holds, the frontier gains the
  root followed by the references that the traversal specs of the select set discover;
  the root is left out exactly when \<open>skip\<close> is true and the select set is not nil.  With
  \<open>skip\<close> unset or false, or with a nil select set, the root is seeded.
\<close>

theorem C7_root_seeding:
  assumes "Get reg (Obj o_spec) = Some obj"
  shows "seed_object tf reg spec o_spec (refs, rec) =
     (case seed_selects tf obj (case SelectSet o_spec of None \<Rightarrow> [] | Some sss \<Rightarrow> sss) ([], rec) of
        Inl e \<Rightarrow> Inl e
      | Inr (ts, rec') \<Rightarrow>
          Inr (refs @ (if Skip o_spec = Some True \<and> SelectSet o_spec \<noteq> None
                       then [] else [Obj o_spec]) @ ts, rec'))"
proof -
  have t: "isFalse (Skip o_spec) \<longleftrightarrow> Skip o_spec \<noteq> Some True"
    by (cases "Skip o_spec") auto
  show ?thesis
    using assms
      seed_selects_frame [of tf obj "case SelectSet o_spec of None \<Rightarrow> [] | Some sss \<Rightarrow> sss"
        "refs @ [Obj o_spec]" rec]
      seed_selects_frame [of tf obj "case SelectSet o_spec of None \<Rightarrow> [] | Some sss \<Rightarrow> sss"
        refs rec]
    by (auto simp: seed_object_def t split: sum.splits)
qed

theorem C7_root_seeding_witness:
  "map_sum id fst (seed_object typeFunc_vim reg_cycle
       \<lparr>PropSet = [], ObjectSet = [], ReportMissingObjectsInResults = None\<rparr>
       \<lparr>Obj = fA, Skip = Some True, SelectSet = Some [TraversalSpec ''childEntity'' None]\<rparr>
       ([fC], \<lambda>p. False)) = Inr [fC, fB, fC]
   \<and> map_sum id fst (seed_object typeFunc_vim reg_cycle
       \<lparr>PropSet = [], ObjectSet = [], ReportMissingObjectsInResults = None\<rparr>
       \<lparr>Obj = fA, Skip = Some False, SelectSet = Some [TraversalSpec ''childEntity'' None]\<rparr>
       ([fC], \<lambda>p. False)) = Inr [fC, fA, fB, fC]"
proof -
  have g: "Get reg_cycle fA = Some (Folder fA ''a'' [fB, fC])" by code_simp
  have s: "map_sum id fst (seed_selects typeFunc_vim (Folder fA ''a'' [fB, fC])
              [TraversalSpec ''childEntity'' None] ([], \<lambda>p. False)) = Inr [fB, fC]"
    by code_simp
  then obtain rec' where s': "seed_selects typeFunc_vim (Folder fA ''a'' [fB, fC])
              [TraversalSpec ''childEntity'' None] ([], \<lambda>p. False) = Inr ([fB, fC], rec')"
    by (cases "seed_selects typeFunc_vim (Folder fA ''a'' [fB, fC])
              [TraversalSpec ''childEntity'' None] ([], \<lambda>p. False)") auto
  show ?thesis
    using C7_root_seeding [of reg_cycle
        "\<lparr>Obj = fA, Skip = Some True, SelectSet = Some [TraversalSpec ''childEntity'' None]\<rparr>"
        "Folder fA ''a'' [fB, fC]" typeFunc_vim
        "\<lparr>PropSet = [], ObjectSet = [], ReportMissingObjectsInResults = None\<rparr>" "[fC]"
        "\<lambda>p. False"]
      C7_root_seeding [of reg_cycle
        "\<lparr>Obj = fA, Skip = Some False, SelectSet = Some [TraversalSpec ''childEntity'' None]\<rparr>"
        "Folder fA ''a'' [fB, fC]" typeFunc_vim
        "\<lparr>PropSet = [], ObjectSet = [], ReportMissingObjectsInResults = None\<rparr>" "[fC]"
        "\<lambda>p. False"]
      g s'
    by simp
qed

text \<open>
  C9.  \<open>RetrieveProperties\<close> against \<open>RetrievePropertiesEx\<close> on the request built
  from the same \<open>This\<close> and \<open>SpecSet\<close>: a panic of the one is a panic of the other,
  a fault is passed on as it is, and otherwise the legacy response holds exactly the
  \<open>Objects\<close> of the result that \<open>RetrievePropertiesEx\<close> returns.
\<close>

theorem C9_legacy_adapter:
  "(case RetrievePropertiesEx_m tf reg \<lparr>This = This_l r, SpecSet = SpecSet_l r\<rparr> of
      Inl e \<Rightarrow> RetrieveProperties_m tf reg r = Inl e
    | Inr body \<Rightarrow>
        (case Fault_x body of
           Some fault \<Rightarrow> RetrieveProperties_m tf reg r = Inr \<lparr>Res = None, Fault_ = Some fault\<rparr>
         | None \<Rightarrow>
             (\<exists>result. Res_x body = Some \<lparr>Returnval_x = Some result\<rparr>
                \<and> RetrieveProperties_m tf reg r
                    = Inr \<lparr>Res = Some \<lparr>Returnval = Objects result\<rparr>, Fault_ = None\<rparr>)))"
  unfolding RetrieveProperties_m_def RetrievePropertiesEx_m_def
  by (auto split: sum.splits error.splits option.splits)

text \<open>
  C10 as stated fails: when the root of the object spec is not registered, the select set
  is never looked at, and the call returns the fault (flag unset) or a result (flag set).
\<close>

theorem C10_absent_root_counterexample:
  "RetrievePropertiesEx_m typeFunc_vim reg_cycle (req_selection fD None)
     = Inr \<lparr>Res_x = None, Fault_x = Some (ManagedObjectNotFound fD)\<rparr>
   \<and> RetrievePropertiesEx_m typeFunc_vim reg_cycle (req_selection fD (Some True))
     = Inr \<lparr>Res_x = Some \<lparr>Returnval_x = Some \<lparr>Token = [], Objects = []\<rparr>\<rparr>, Fault_x = None\<rparr>"
  by code_simp

text \<open>
  C10, amended.  When the seeding loop reaches an object spec whose root the registry
  holds, and the select set of that object spec has an entry that is no
  \<open>TraversalSpec\<close>, the call panics: it returns neither a result nor a fault.
\<close>

theorem C10_selection_entry_panics:
  assumes "SpecSet r = before @ spec # after"
    and "ObjectSet spec = os_before @ o_spec # os_after"
    and "seed_specs tf reg before ([], \<lambda>p. False) = Inr st_a"
    and "seed_objects tf reg spec os_before st_a = Inr st_b"
    and "Get reg (Obj o_spec) = Some obj"
    and "SelectSet o_spec = Some sss"
    and "SelectionSpec name \<in> set sss"
  shows "RetrievePropertiesEx_m tf reg r = Inl Panic"
proof -
  have "seed_object tf reg spec o_spec st_b = Inl Panic"
    using assms(5,6) seed_selects_SelectionSpec [OF assms(7)] by (simp add: seed_object_def)
  then have "seed_specs tf reg (SpecSet r) ([], \<lambda>p. False) = Inl Panic"
    using seed_specs_reach [OF assms(1-4)] by simp
  then show ?thesis by (simp add: RetrievePropertiesEx_m_def PC_collect_def)
qed

theorem C10_selection_entry_panics_witness:
  "Get reg_cycle fA \<noteq> None
   \<and> RetrievePropertiesEx_m typeFunc_vim reg_cycle (req_selection fA None) = Inl Panic"
proof -
  have g: "Get reg_cycle fA = Some (Folder fA ''a'' [fB, fC])" by code_simp
  have s0: "seed_specs typeFunc_vim reg_cycle [] ([], \<lambda>p. False) = Inr ([], \<lambda>p. False)" by simp
  have s1: "\<And>spec. seed_objects typeFunc_vim reg_cycle spec [] ([], \<lambda>p. False) = Inr ([], \<lambda>p. False)"
    by simp
  have "RetrievePropertiesEx_m typeFunc_vim reg_cycle (req_selection fA None) = Inl Panic"
    using C10_selection_entry_panics [where r = "req_selection fA None" and before = "[]"
        and after = "[]" and spec = "hd (SpecSet (req_selection fA None))" and os_before = "[]"
        and o_spec = "\<lparr>Obj = fA, Skip = None, SelectSet = Some [SelectionSpec ''visitFolders'']\<rparr>"
        and os_after = "[]" and tf = typeFunc_vim and reg = reg_cycle
        and sss = "[SelectionSpec ''visitFolders'']" and name = "''visitFolders''",
        OF _ _ s0 s1] g
    by (simp add: req_selection_def)
  with g show ?thesis by simp
qed

end
